theory Spec2Isabelle
  imports Complex_Main "HOL-Library.Multiset"
begin

section \<open>Data model\<close>

text \<open>
  The types of the viewer (\<^verbatim>\<open>types.ts\<close>) and the rows of the table
  \<^verbatim>\<open>current_game\<close> of the server. A \<^verbatim>\<open>GamePlayer\<close> is a \<^verbatim>\<open>Player\<close> with a
  team; the team \<^verbatim>\<open>null\<close> is \<open>None\<close>. The field \<^verbatim>\<open>id\<close> is written \<open>id'\<close>,
  since \<open>id\<close> is the identity function of HOL.
\<close>

datatype Position = forward | defense | goalie

datatype Team = red | blue

record Player =
  id' :: nat
  name :: string
  position :: Position

record GamePlayer = Player +
  team :: "Team option"

datatype WebSocketMessage =
    SIGNUP_UPDATE GamePlayer
  | SIGNUP_REMOVED nat
  | TEAMS_UPDATED
  | GAME_RESET

text \<open>
  The database, as far as the session is concerned: the rows of \<^verbatim>\<open>current_game\<close> in
  insertion order and the counter that \<^verbatim>\<open>AUTOINCREMENT\<close> keeps for the table (the
  largest row id ever used, which a \<^verbatim>\<open>DELETE\<close> does not reset). The table
  \<^verbatim>\<open>players\<close> of the roster plays no part in the session operations.
\<close>

record db =
  current_game :: "GamePlayer list"
  seq :: nat

text \<open>
  What a route answers: the signup as JSON, \<^verbatim>\<open>{ success: true }\<close>, or status 400 with
  the error text that the player is already signed up.
\<close>

datatype response = Json_signup GamePlayer | Json_success | Status_400

text \<open>
  What a viewer shows with \<^verbatim>\<open>alert\<close>: the maximum of 22 players is reached, the error
  text of a refused request, or that a draw needs at least two players.
\<close>

datatype alert = Alert_max_players | Alert_error | Alert_need_two

text \<open>
  One request, seen from outside: what the requester gets, the database afterwards, and
  the messages handed to \<^verbatim>\<open>broadcast\<close>, in order (each goes to every open socket).
\<close>

record 'r outcome =
  result :: 'r
  store :: db
  sent :: "WebSocketMessage list"

section \<open>The server routes\<close>

text \<open>
  \<^verbatim>\<open>INSERT\<close> into a table with \<^verbatim>\<open>AUTOINCREMENT\<close>: the new row id is one more than
  the largest id the table has ever held.
\<close>

definition lastInsertRowid :: "db \<Rightarrow> nat" where
  "lastInsertRowid d = Suc (fold max (map id' (current_game d)) (seq d))"

text \<open>\<^verbatim>\<open>POST /api/current-game/signup\<close>\<close>

definition api_signup :: "string \<Rightarrow> Position \<Rightarrow> db \<Rightarrow> response outcome" where
  "api_signup nm pos d =
     (case find (\<lambda>r. name r = nm) (current_game d) of
        Some existing \<Rightarrow> \<lparr>result = Status_400, store = d, sent = []\<rparr>
      | None \<Rightarrow>
          (let rowid = lastInsertRowid d;
               signup = \<lparr>id' = rowid, name = nm, position = pos, team = None\<rparr>
           in \<lparr>result = Json_signup signup,
               store = d\<lparr>current_game := current_game d @ [signup], seq := rowid\<rparr>,
               sent = [SIGNUP_UPDATE signup]\<rparr>))"

text \<open>\<^verbatim>\<open>POST /api/current-game/remove\<close>\<close>

definition api_remove :: "nat \<Rightarrow> db \<Rightarrow> response outcome" where
  "api_remove i d =
     \<lparr>result = Json_success,
      store = d\<lparr>current_game := filter (\<lambda>r. id' r \<noteq> i) (current_game d)\<rparr>,
      sent = [SIGNUP_REMOVED i]\<rparr>"

text \<open>
  \<^verbatim>\<open>POST /api/current-game/split\<close>: one \<^verbatim>\<open>UPDATE current_game SET team = ? WHERE id = ?\<close>
  for every item \<open>(id, team)\<close> of the request, in order.
\<close>

definition update_run :: "nat \<times> Team option \<Rightarrow> GamePlayer list \<Rightarrow> GamePlayer list" where
  "update_run item rows = map (\<lambda>r. if id' r = fst item then r\<lparr>team := snd item\<rparr> else r) rows"

definition api_split :: "(nat \<times> Team option) list \<Rightarrow> db \<Rightarrow> response outcome" where
  "api_split teams d =
     \<lparr>result = Json_success,
      store = d\<lparr>current_game := fold update_run teams (current_game d)\<rparr>,
      sent = [TEAMS_UPDATED]\<rparr>"

text \<open>\<^verbatim>\<open>POST /api/current-game/reset\<close>\<close>

definition api_reset :: "db \<Rightarrow> response outcome" where
  "api_reset d =
     \<lparr>result = Json_success, store = d\<lparr>current_game := []\<rparr>, sent = [GAME_RESET]\<rparr>"

section \<open>The viewer\<close>

text \<open>
  \<^verbatim>\<open>fetchData\<close> replaces the projection \<^verbatim>\<open>gamePlayers\<close> by the answer of
  \<^verbatim>\<open>GET /api/current-game\<close>; when the fetch fails (\<open>None\<close>) the projection stays.
\<close>

definition fetchData :: "GamePlayer list option \<Rightarrow> GamePlayer list \<Rightarrow> GamePlayer list" where
  "fetchData fetched prev = (case fetched of Some gameData \<Rightarrow> gameData | None \<Rightarrow> prev)"

text \<open>\<^verbatim>\<open>socket.onmessage\<close>, as a function of the projection.\<close>

fun onmessage :: "GamePlayer list option \<Rightarrow> WebSocketMessage \<Rightarrow> GamePlayer list \<Rightarrow> GamePlayer list" where
  "onmessage fetched (SIGNUP_UPDATE d) prev =
     (case find (\<lambda>p. id' p = id' d) prev of Some exists \<Rightarrow> prev | None \<Rightarrow> prev @ [d])"
| "onmessage fetched (SIGNUP_REMOVED i) prev = filter (\<lambda>p. id' p \<noteq> i) prev"
| "onmessage fetched TEAMS_UPDATED prev = fetchData fetched prev"
| "onmessage fetched GAME_RESET prev = fetchData fetched prev"

text \<open>
  \<^verbatim>\<open>signUp\<close>: the viewer refuses by itself when its projection holds 22 players or
  more; otherwise it posts the request and shows the error of a refused one.
\<close>

definition signUp :: "'a Player_scheme \<Rightarrow> GamePlayer list \<Rightarrow> db \<Rightarrow> alert option outcome" where
  "signUp player gamePlayers d =
     (if length gamePlayers \<ge> 22 then \<lparr>result = Some Alert_max_players, store = d, sent = []\<rparr>
      else (let res = api_signup (name player) (position player) d
            in \<lparr>result = (if result res = Status_400 then Some Alert_error else None),
                store = store res, sent = sent res\<rparr>))"

text \<open>\<^verbatim>\<open>toggleTeam\<close>: the next team of the cycle, posted as a split of one item.\<close>

definition nextTeam :: "Team option \<Rightarrow> Team option" where
  "nextTeam t = (if t = Some red then Some blue else if t = Some blue then None else Some red)"

definition toggleTeam :: "GamePlayer \<Rightarrow> db \<Rightarrow> alert option outcome" where
  "toggleTeam player d =
     (let res = api_split [(id' player, nextTeam (team player))] d
      in \<lparr>result = None, store = store res, sent = sent res\<rparr>)"

section \<open>The draw\<close>

text \<open>
  \<^verbatim>\<open>splitTeams\<close> builds the list \<^verbatim>\<open>teamsUpdate\<close> of items \<open>(id, team)\<close>, first one
  item with team \<^verbatim>\<open>null\<close> for every player of the projection, and then overwrites
  teams in it. \<^verbatim>\<open>teamsUpdate.find(u => u.id === i)!.team = t\<close> changes the first item
  with that id; when there is none, \<^verbatim>\<open>find\<close> gives \<^verbatim>\<open>undefined\<close> and the assignment
  throws a \<^verbatim>\<open>TypeError\<close>.
\<close>

datatype error = TypeError

fun find_set_team :: "nat \<Rightarrow> Team \<Rightarrow> (nat \<times> Team option) list \<Rightarrow> error + (nat \<times> Team option) list" where
  "find_set_team i t [] = Inl TypeError"
| "find_set_team i t (u # us) =
     (if fst u = i then Inr ((fst u, Some t) # us)
      else (case find_set_team i t us of Inl e \<Rightarrow> Inl e | Inr us' \<Rightarrow> Inr (u # us')))"

text \<open>\<^verbatim>\<open>ps.forEach(p => teamsUpdate.find(u => u.id === p.id)!.team = t)\<close>\<close>

fun forEach_set_team :: "GamePlayer list \<Rightarrow> Team \<Rightarrow> (nat \<times> Team option) list \<Rightarrow> error + (nat \<times> Team option) list" where
  "forEach_set_team [] t us = Inr us"
| "forEach_set_team (p # ps) t us =
     (case find_set_team (id' p) t us of Inl e \<Rightarrow> Inl e | Inr us' \<Rightarrow> forEach_set_team ps t us')"

text \<open>\<^verbatim>\<open>xs.slice(a, b)\<close> for \<open>0 \<le> a \<le> b\<close>.\<close>

definition slice :: "nat \<Rightarrow> nat \<Rightarrow> 'a list \<Rightarrow> 'a list" where
  "slice a b xs = take (b - a) (drop a xs)"

text \<open>Statements in sequence: an exception ends the run.\<close>

definition and_then :: "error + 'a \<Rightarrow> ('a \<Rightarrow> error + 'b) \<Rightarrow> error + 'b" where
  "and_then r f = (case r of Inl e \<Rightarrow> Inl e | Inr x \<Rightarrow> f x)"

text \<open>
  The computation of \<^verbatim>\<open>teamsUpdate\<close>. The local function \<^verbatim>\<open>shuffle\<close> is
  \<^verbatim>\<open>[...array].sort(() => Math.random() - 0.5)\<close>; what one run of it returns depends on
  the sort of the engine and on the random numbers drawn, so it is a parameter here.
\<close>

definition teamsUpdate :: "(GamePlayer list \<Rightarrow> GamePlayer list) \<Rightarrow> GamePlayer list \<Rightarrow> error + (nat \<times> Team option) list" where
  "teamsUpdate shuffle gamePlayers =
     (let goalies = filter (\<lambda>p. position p = goalie) gamePlayers;
          defenders = filter (\<lambda>p. position p = defense) gamePlayers;
          forwards = filter (\<lambda>p. position p = forward) gamePlayers;
          sGoalies = shuffle goalies;
          sDefenders = shuffle defenders;
          sForwards = shuffle forwards;
          reset = map (\<lambda>p. (id' p, None)) gamePlayers
      in and_then (if length sGoalies \<ge> 1 then find_set_team (id' (sGoalies ! 0)) red reset else Inr reset) (\<lambda>u1.
         and_then (if length sGoalies \<ge> 2 then find_set_team (id' (sGoalies ! 1)) blue u1 else Inr u1) (\<lambda>u2.
         and_then (forEach_set_team (slice 0 4 sDefenders) red u2) (\<lambda>u3.
         and_then (forEach_set_team (slice 4 8 sDefenders) blue u3) (\<lambda>u4.
         and_then (forEach_set_team (slice 0 6 sForwards) red u4) (\<lambda>u5.
         forEach_set_team (slice 6 12 sForwards) blue u5))))))"

text \<open>
  \<^verbatim>\<open>splitTeams\<close>: with fewer than two players in the projection the viewer only shows
  an alert; otherwise it posts \<^verbatim>\<open>teamsUpdate\<close> to the split route.
\<close>

definition splitTeams :: "(GamePlayer list \<Rightarrow> GamePlayer list) \<Rightarrow> GamePlayer list \<Rightarrow> db \<Rightarrow> error + alert option outcome" where
  "splitTeams shuffle gamePlayers d =
     (if length gamePlayers < 2 then Inr \<lparr>result = Some Alert_need_two, store = d, sent = []\<rparr>
      else (case teamsUpdate shuffle gamePlayers of
              Inl e \<Rightarrow> Inl e
            | Inr teams \<Rightarrow>
                (let res = api_split teams d
                 in Inr \<lparr>result = None, store = store res, sent = sent res\<rparr>)))"

text \<open>
  What the viewer shows per team and position
  (\<^verbatim>\<open>redTeam.filter(p => p.position === 'goalie')\<close> and its siblings), as a count.
\<close>

definition team_count :: "Team \<Rightarrow> Position \<Rightarrow> GamePlayer list \<Rightarrow> nat" where
  "team_count t pos rows = length (filter (\<lambda>p. team p = Some t \<and> position p = pos) rows)"

section \<open>Notions used in the statements\<close>

text \<open>
  The row of a participant, as \<^verbatim>\<open>GET /api/current-game\<close> shows it to a viewer.
\<close>

definition session_row :: "nat \<Rightarrow> db \<Rightarrow> GamePlayer option" where
  "session_row i d = find (\<lambda>r. id' r = i) (current_game d)"

text \<open>
  The shuffled pool of a position (\<^verbatim>\<open>sGoalies\<close>, \<^verbatim>\<open>sDefenders\<close>, \<^verbatim>\<open>sForwards\<close>), the
  number of players of a position, and the ids of a list of players.
\<close>

definition pool :: "(GamePlayer list \<Rightarrow> GamePlayer list) \<Rightarrow> GamePlayer list \<Rightarrow> Position \<Rightarrow> GamePlayer list" where
  "pool shuffle gamePlayers pos = shuffle (filter (\<lambda>p. position p = pos) gamePlayers)"

definition pool_size :: "Position \<Rightarrow> GamePlayer list \<Rightarrow> nat" where
  "pool_size pos rows = length (filter (\<lambda>p. position p = pos) rows)"

definition ids :: "GamePlayer list \<Rightarrow> nat set" where
  "ids ps = id' ` set ps"

text \<open>
  The places per team that the draw hands out: the literals of \<^verbatim>\<open>splitTeams\<close>
  (\<^verbatim>\<open>sGoalies[0]\<close> and \<^verbatim>\<open>sGoalies[1]\<close>, \<^verbatim>\<open>slice(0, 4)\<close> and \<^verbatim>\<open>slice(4, 8)\<close>,
  \<^verbatim>\<open>slice(0, 6)\<close> and \<^verbatim>\<open>slice(6, 12)\<close>). \<open>slot_team q i\<close> is the team of place \<open>i\<close> of
  a shuffled pool with \<open>q\<close> places per team.
\<close>

definition quota :: "Position \<Rightarrow> nat" where
  "quota pos = (case pos of goalie \<Rightarrow> 1 | defense \<Rightarrow> 4 | forward \<Rightarrow> 6)"

definition slot_team :: "nat \<Rightarrow> nat \<Rightarrow> Team option" where
  "slot_team q i = (if i < q then Some red else if i < 2 * q then Some blue else None)"

text \<open>
  Overwriting, in a list of items, the team of every item whose id is in a set; and the
  team that the six overwriting passes of \<^verbatim>\<open>splitTeams\<close> leave for an id.
\<close>

definition paint :: "nat set \<Rightarrow> Team \<Rightarrow> (nat \<times> Team option) list \<Rightarrow> (nat \<times> Team option) list" where
  "paint S t us = map (\<lambda>u. if fst u \<in> S then (fst u, Some t) else u) us"

definition assigned :: "(GamePlayer list \<Rightarrow> GamePlayer list) \<Rightarrow> GamePlayer list \<Rightarrow> nat \<Rightarrow> Team option" where
  "assigned shuffle gp i =
     (if i \<in> ids (slice 6 12 (pool shuffle gp forward)) then Some blue
      else if i \<in> ids (slice 0 6 (pool shuffle gp forward)) then Some red
      else if i \<in> ids (slice 4 8 (pool shuffle gp defense)) then Some blue
      else if i \<in> ids (slice 0 4 (pool shuffle gp defense)) then Some red
      else if i \<in> ids (slice 1 2 (pool shuffle gp goalie)) then Some blue
      else if i \<in> ids (slice 0 1 (pool shuffle gp goalie)) then Some red
      else None)"

subsection \<open>The distribution of the shuffle\<close>

text \<open>
  One run of \<^verbatim>\<open>[...array].sort(() => Math.random() - 0.5)\<close> on a given array. The sort
  belongs to the engine; whichever algorithm it is, the comparison function ignores its
  arguments, so all the sort learns about the array is the sequence of answers: it either
  returns an array, or calls the comparison function and goes on in one of three ways,
  for a negative, a zero or a positive answer.
\<close>

datatype 'a sort_run =
    Return "'a list"
  | Call_comparefn "'a sort_run" "'a sort_run" "'a sort_run"

text \<open>
  The probability that a run returns \<open>ys\<close>, for \<^verbatim>\<open>Math.random()\<close> uniform on the
  interval from 0 to 1 and independent between calls: the answer \<^verbatim>\<open>Math.random() - 0.5\<close>
  is negative with probability 1/2, positive with probability 1/2 and zero with
  probability 0.
\<close>

fun probability :: "'a sort_run \<Rightarrow> 'a list \<Rightarrow> rat" where
  "probability (Return xs) ys = (if xs = ys then 1 else 0)"
| "probability (Call_comparefn negative zero positive) ys =
     1 / 2 * probability negative ys + 0 * probability zero ys + 1 / 2 * probability positive ys"

section \<open>Example sessions\<close>

definition alice :: GamePlayer where
  "alice = \<lparr>id' = 1, name = ''Alice'', position = defense, team = None\<rparr>"

definition alice_session :: db where
  "alice_session =
     \<lparr>current_game =
        [\<lparr>id' = 1, name = ''Alice'', position = defense, team = None\<rparr>,
         \<lparr>id' = 2, name = ''Bob'', position = goalie, team = Some blue\<rparr>],
      seq = 2\<rparr>"

definition four :: "GamePlayer list" where
  "four =
     [\<lparr>id' = 1, name = ''Ada'', position = goalie, team = Some blue\<rparr>,
      \<lparr>id' = 2, name = ''Ben'', position = goalie, team = None\<rparr>,
      \<lparr>id' = 3, name = ''Cy'', position = defense, team = None\<rparr>,
      \<lparr>id' = 4, name = ''Dee'', position = goalie, team = Some red\<rparr>]"

definition four_session :: db where
  "four_session = \<lparr>current_game = four, seq = 4\<rparr>"

text \<open>A session of \<open>n\<close> forwards with the ids 1 to \<open>n\<close>, and a player of the roster.\<close>

definition session_of :: "nat \<Rightarrow> db" where
  "session_of n =
     \<lparr>current_game =
        map (\<lambda>k. \<lparr>id' = k, name = replicate k CHR ''x'', position = forward, team = None\<rparr>) [1..<Suc n],
      seq = n\<rparr>"

definition zoe :: Player where
  "zoe = \<lparr>id' = 7, name = ''Zoe'', position = goalie\<rparr>"

section \<open>The registry\<close>

subsection \<open>Row ids are unique\<close>

text \<open>
  \<^verbatim>\<open>id\<close> is the primary key of \<^verbatim>\<open>current_game\<close>. No route breaks that: a signup
  inserts an id larger than every id of the table, the other routes insert nothing.
\<close>

lemma le_fold_max:
  fixes a :: nat
  assumes "x \<in> set xs"
  shows "x \<le> fold max xs a"
proof -
  have "fold max xs a = Max (set (a # xs))"
    by (simp only: Max.set_eq_fold)
  moreover have "x \<le> Max (set (a # xs))"
    using assms by (intro Max_ge) auto
  ultimately show ?thesis by simp
qed

lemma lastInsertRowid_fresh: "lastInsertRowid d \<notin> id' ` set (current_game d)"
proof
  assume "lastInsertRowid d \<in> id' ` set (current_game d)"
  then have "lastInsertRowid d \<in> set (map id' (current_game d))"
    by simp
  then have "lastInsertRowid d \<le> fold max (map id' (current_game d)) (seq d)"
    by (rule le_fold_max)
  then show False
    by (simp add: lastInsertRowid_def)
qed

lemma map_id_update_run: "map id' (update_run item rows) = map id' rows"
  by (induction rows) (simp_all add: update_run_def)

lemma map_id_fold_update_run: "map id' (fold update_run teams rows) = map id' rows"
  by (induction teams arbitrary: rows) (simp_all add: map_id_update_run)

lemma distinct_ids_preserved:
  assumes "distinct (map id' (current_game d))"
  shows "distinct (map id' (current_game (store (api_signup nm pos d))))"
    and "distinct (map id' (current_game (store (api_remove i d))))"
    and "distinct (map id' (current_game (store (api_split teams d))))"
    and "distinct (map id' (current_game (store (api_reset d))))"
proof -
  show "distinct (map id' (current_game (store (api_signup nm pos d))))"
    using assms lastInsertRowid_fresh [of d]
    by (simp add: api_signup_def Let_def split: option.splits)
  show "distinct (map id' (current_game (store (api_remove i d))))"
    using assms by (simp add: api_remove_def distinct_map_filter)
  show "distinct (map id' (current_game (store (api_split teams d))))"
    using assms by (simp add: api_split_def map_id_fold_update_run)
  show "distinct (map id' (current_game (store (api_reset d))))"
    by (simp add: api_reset_def)
qed

lemma find_distinct_ids:
  "distinct (map id' rows) \<Longrightarrow> p \<in> set rows \<Longrightarrow> find (\<lambda>r. id' r = id' p) rows = Some p"
  by (induction rows) (auto simp: image_iff)

subsection \<open>Session reset\<close>

text \<open>
  C7. Resetting the session twice in a row leaves the session empty after the first and
  after the second reset, each reset answers success whatever the state was, and the two
  resets broadcast exactly two \<^verbatim>\<open>GAME_RESET\<close> messages, one each.
\<close>

theorem reset_twice:
  "current_game (store (api_reset d)) = []
   \<and> current_game (store (api_reset (store (api_reset d)))) = []
   \<and> result (api_reset d) = Json_success
   \<and> result (api_reset (store (api_reset d))) = Json_success
   \<and> sent (api_reset d) @ sent (api_reset (store (api_reset d))) = [GAME_RESET, GAME_RESET]"
  by (simp add: api_reset_def)

subsection \<open>Removing a signup\<close>

text \<open>
  C10. Every remove request answers success and broadcasts one \<^verbatim>\<open>SIGNUP_REMOVED\<close>
  message carrying the requested id, whether or not a row had that id; the rows with
  another id are what is left of the session.
\<close>

theorem remove_always_broadcasts:
  "result (api_remove i d) = Json_success
   \<and> sent (api_remove i d) = [SIGNUP_REMOVED i]
   \<and> current_game (store (api_remove i d)) = filter (\<lambda>r. id' r \<noteq> i) (current_game d)"
  by (simp add: api_remove_def)

subsection \<open>Signing up a name twice\<close>

lemma find_name_Some:
  "nm \<in> name ` set rows \<Longrightarrow> \<exists>r. find (\<lambda>r. name r = nm) rows = Some r"
  by (cases "find (\<lambda>r. name r = nm) rows") (auto simp: find_None_iff)

text \<open>
  C8. A signup whose name is already in the session, whatever the position asked for, is
  answered with status 400; the database is the same afterwards and nothing is
  broadcast.
\<close>

theorem signup_duplicate_rejected:
  "nm \<in> name ` set (current_game d) \<Longrightarrow>
   api_signup nm pos d = \<lparr>result = Status_400, store = d, sent = []\<rparr>"
  using find_name_Some [of nm "current_game d"] by (auto simp: api_signup_def)

theorem signup_duplicate_rejected_witness:
  "''Alice'' \<in> name ` set (current_game alice_session)
   \<and> api_signup ''Alice'' forward alice_session
       = \<lparr>result = Status_400, store = alice_session, sent = []\<rparr>"
  using signup_duplicate_rejected [of "''Alice''" alice_session forward]
  by (simp add: alice_session_def)

subsection \<open>Capacity\<close>

text \<open>
  C1, as stated, does not hold of the signup route: the route checks the name only. With
  22 rows in the session, a request with a new name is answered with the new signup, the
  session has 23 rows afterwards, and the signup is broadcast.
\<close>

theorem registry_accepts_23rd:
  "length (current_game (session_of 22)) = 22
   \<and> result (api_signup ''Zoe'' goalie (session_of 22))
       = Json_signup \<lparr>id' = 23, name = ''Zoe'', position = goalie, team = None\<rparr>
   \<and> length (current_game (store (api_signup ''Zoe'' goalie (session_of 22)))) = 23
   \<and> sent (api_signup ''Zoe'' goalie (session_of 22))
       = [SIGNUP_UPDATE \<lparr>id' = 23, name = ''Zoe'', position = goalie, team = None\<rparr>]"
  by code_simp

lemma api_signup_length:
  "length (current_game (store (api_signup nm pos d))) \<le> Suc (length (current_game d))"
  by (simp add: api_signup_def Let_def split: option.splits)

lemma api_signup_fresh:
  assumes "nm \<notin> name ` set (current_game d)"
  shows "result (api_signup nm pos d) \<noteq> Status_400"
    and "length (current_game (store (api_signup nm pos d))) = Suc (length (current_game d))"
proof -
  have "find (\<lambda>r. name r = nm) (current_game d) = None"
    using assms by (auto simp: find_None_iff)
  then show "result (api_signup nm pos d) \<noteq> Status_400"
    and "length (current_game (store (api_signup nm pos d))) = Suc (length (current_game d))"
    by (simp_all add: api_signup_def Let_def)
qed

text \<open>
  C1, amended. The limit of 22 is kept by the viewer, on its own projection. When the
  projection holds 22 players or more, \<^verbatim>\<open>signUp\<close> shows the alert, sends nothing and
  the database is unchanged. When it holds fewer and the name is new, the request goes
  through and the session grows by one (so from a projection of 21 the 22nd signup
  succeeds). For a viewer whose projection is the session, a session of at most 22 stays
  at most 22.
\<close>

theorem signUp_capacity_guard:
  "(22 \<le> length gamePlayers \<longrightarrow>
      signUp player gamePlayers d = \<lparr>result = Some Alert_max_players, store = d, sent = []\<rparr>)
   \<and> (length gamePlayers < 22 \<longrightarrow> name player \<notin> name ` set (current_game d) \<longrightarrow>
        result (signUp player gamePlayers d) = None
        \<and> length (current_game (store (signUp player gamePlayers d))) = Suc (length (current_game d)))
   \<and> (current_game d = gamePlayers \<longrightarrow> length gamePlayers \<le> 22 \<longrightarrow>
        length (current_game (store (signUp player gamePlayers d))) \<le> 22)"
proof (intro conjI impI)
  assume "22 \<le> length gamePlayers"
  then show "signUp player gamePlayers d = \<lparr>result = Some Alert_max_players, store = d, sent = []\<rparr>"
    by (simp add: signUp_def)
next
  assume "length gamePlayers < 22" and "name player \<notin> name ` set (current_game d)"
  then show "result (signUp player gamePlayers d) = None"
    and "length (current_game (store (signUp player gamePlayers d))) = Suc (length (current_game d))"
    using api_signup_fresh [of "name player" d "position player"]
    by (simp_all add: signUp_def Let_def)
next
  assume "current_game d = gamePlayers" and "length gamePlayers \<le> 22"
  then show "length (current_game (store (signUp player gamePlayers d))) \<le> 22"
    using api_signup_length [of "name player" "position player" d]
    by (auto simp: signUp_def Let_def)
qed

theorem signUp_capacity_guard_witness:
  "22 \<le> length (current_game (session_of 22))
   \<and> signUp zoe (current_game (session_of 22)) (session_of 22)
       = \<lparr>result = Some Alert_max_players, store = session_of 22, sent = []\<rparr>
   \<and> length (current_game (session_of 21)) < 22
   \<and> name zoe \<notin> name ` set (current_game (session_of 21))
   \<and> result (signUp zoe (current_game (session_of 21)) (session_of 21)) = None
   \<and> length (current_game (store (signUp zoe (current_game (session_of 21)) (session_of 21)))) = 22
   \<and> current_game (session_of 21) = current_game (session_of 21)
   \<and> length (current_game (session_of 21)) \<le> 22
   \<and> length (current_game (store (signUp zoe (current_game (session_of 21)) (session_of 21)))) \<le> 22"
proof -
  have full: "22 \<le> length (current_game (session_of 22))"
    by code_simp
  have room: "length (current_game (session_of 21)) < 22"
    and fresh: "name zoe \<notin> name ` set (current_game (session_of 21))"
    and size: "length (current_game (session_of 21)) = 21"
    by code_simp+
  note at_22 = signUp_capacity_guard [of "current_game (session_of 22)" zoe "session_of 22"]
  note at_21 = signUp_capacity_guard [of "current_game (session_of 21)" zoe "session_of 21"]
  from at_22 full
  have "signUp zoe (current_game (session_of 22)) (session_of 22)
      = \<lparr>result = Some Alert_max_players, store = session_of 22, sent = []\<rparr>"
    by blast
  moreover from at_21 room fresh
  have "result (signUp zoe (current_game (session_of 21)) (session_of 21)) = None
      \<and> length (current_game (store (signUp zoe (current_game (session_of 21)) (session_of 21))))
          = Suc (length (current_game (session_of 21)))"
    by blast
  ultimately show ?thesis
    using full room fresh size by simp
qed

section \<open>The projection of a viewer\<close>

text \<open>
  C9. A \<^verbatim>\<open>SIGNUP_UPDATE\<close> message for an id that the projection already holds leaves
  the projection as it is, and so does a \<^verbatim>\<open>SIGNUP_REMOVED\<close> message for an id that the
  projection does not hold.
\<close>

theorem onmessage_tolerates_duplicates:
  "(id' p \<in> id' ` set prev \<longrightarrow> onmessage fetched (SIGNUP_UPDATE p) prev = prev)
   \<and> (i \<notin> id' ` set prev \<longrightarrow> onmessage fetched (SIGNUP_REMOVED i) prev = prev)"
proof (intro conjI impI)
  assume "id' p \<in> id' ` set prev"
  then have "find (\<lambda>q. id' q = id' p) prev \<noteq> None"
    by (auto simp: find_None_iff)
  then show "onmessage fetched (SIGNUP_UPDATE p) prev = prev"
    by (auto split: option.splits)
next
  assume "i \<notin> id' ` set prev"
  then have "\<forall>q \<in> set prev. id' q \<noteq> i"
    by auto
  then show "onmessage fetched (SIGNUP_REMOVED i) prev = prev"
    by (simp add: filter_id_conv)
qed

theorem onmessage_tolerates_duplicates_witness:
  "id' \<lparr>id' = 1, name = ''Alice'', position = forward, team = Some red\<rparr>
      \<in> id' ` set (current_game alice_session)
   \<and> onmessage None (SIGNUP_UPDATE \<lparr>id' = 1, name = ''Alice'', position = forward, team = Some red\<rparr>)
        (current_game alice_session) = current_game alice_session
   \<and> 7 \<notin> id' ` set (current_game alice_session)
   \<and> onmessage None (SIGNUP_REMOVED 7) (current_game alice_session) = current_game alice_session"
  using onmessage_tolerates_duplicates
    [of "\<lparr>id' = 1, name = ''Alice'', position = forward, team = Some red\<rparr>"
        "current_game alice_session" None 7]
  by (simp add: alice_session_def)

section \<open>Manual override\<close>

text \<open>What one \<^verbatim>\<open>toggleTeam\<close> does to the rows of the session.\<close>

lemma toggleTeam_rows:
  "current_game (store (toggleTeam player d))
     = map (\<lambda>r. if id' r = id' player then r\<lparr>team := nextTeam (team player)\<rparr> else r) (current_game d)"
  by (simp add: toggleTeam_def api_split_def update_run_def Let_def)

lemma toggle_row:
  assumes "distinct (map id' (current_game d))" and "r \<in> set (current_game d)"
    and "id' player = id' r"
  shows "session_row (id' r) (store (toggleTeam player d)) = Some (r\<lparr>team := nextTeam (team player)\<rparr>)"
    and "distinct (map id' (current_game (store (toggleTeam player d))))"
    and "r\<lparr>team := nextTeam (team player)\<rparr> \<in> set (current_game (store (toggleTeam player d)))"
proof -
  let ?f = "\<lambda>q::GamePlayer. if id' q = id' player then q\<lparr>team := nextTeam (team player)\<rparr> else q"
  have ids: "id' \<circ> ?f = id'"
    by (auto simp: fun_eq_iff)
  show d: "distinct (map id' (current_game (store (toggleTeam player d))))"
    using assms(1) ids by (simp add: toggleTeam_rows)
  have "?f r \<in> set (map ?f (current_game d))"
    using assms(2) by simp
  then show m: "r\<lparr>team := nextTeam (team player)\<rparr> \<in> set (current_game (store (toggleTeam player d)))"
    using assms(3) by (simp add: toggleTeam_rows)
  show "session_row (id' r) (store (toggleTeam player d)) = Some (r\<lparr>team := nextTeam (team player)\<rparr>)"
    using find_distinct_ids [OF d m] by (simp add: session_row_def)
qed

text \<open>
  C5, as stated, does not hold of every invocation. \<^verbatim>\<open>toggleTeam\<close> takes the next
  team from the copy of the participant that the viewer shows, and that copy changes only
  when the viewer has fetched the session again. Invoked three times on the same shown
  copy of an unassigned participant, it leaves the participant red each time: the second
  invocation does not advance red to blue, and the third does not give unassigned.
\<close>

theorem toggleTeam_same_copy_stays_red:
  "team alice = None
   \<and> session_row 1 alice_session = Some alice
   \<and> session_row 1 (store (toggleTeam alice alice_session)) = Some (alice\<lparr>team := Some red\<rparr>)
   \<and> session_row 1 (store (toggleTeam alice (store (toggleTeam alice alice_session))))
       = Some (alice\<lparr>team := Some red\<rparr>)
   \<and> session_row 1 (store (toggleTeam alice (store (toggleTeam alice alice_session))))
       \<noteq> Some (alice\<lparr>team := Some blue\<rparr>)
   \<and> session_row 1
        (store (toggleTeam alice (store (toggleTeam alice (store (toggleTeam alice alice_session))))))
       = Some (alice\<lparr>team := Some red\<rparr>)"
  by (simp add: alice_def alice_session_def session_row_def toggleTeam_def api_split_def
      update_run_def nextTeam_def Let_def)

text \<open>
  C5, amended. Let \<open>r\<close> be the row of a participant in the session and \<open>player\<close> the
  copy of that participant that the invoking viewer shows (the same id, any team). One
  \<^verbatim>\<open>toggleTeam\<close> sets the team of the row to the successor, along the cycle unassigned,
  red, blue, unassigned, of the team that the viewer shows, and changes nothing else of
  the row; so when the viewer shows the team that the session has, the team advances
  exactly one step. Starting from unassigned, three overrides in a row, each invoked on
  the row as the session has it after the override before (the viewer has fetched the
  session again in between), give red, then blue, then unassigned.
\<close>

theorem toggleTeam_cycle:
  assumes "distinct (map id' (current_game d))" and "r \<in> set (current_game d)"
    and "id' player = id' r"
  shows "session_row (id' r) (store (toggleTeam player d))
           = Some (r\<lparr>team := nextTeam (team player)\<rparr>)
    \<and> nextTeam None = Some red \<and> nextTeam (Some red) = Some blue \<and> nextTeam (Some blue) = None
    \<and> (team r = None \<longrightarrow>
         (let p1 = r\<lparr>team := Some red\<rparr>;
              p2 = r\<lparr>team := Some blue\<rparr>;
              d1 = store (toggleTeam r d);
              d2 = store (toggleTeam p1 d1);
              d3 = store (toggleTeam p2 d2)
          in session_row (id' r) d1 = Some p1
             \<and> session_row (id' r) d2 = Some p2
             \<and> session_row (id' r) d3 = Some r))"
proof (intro conjI impI)
  show "session_row (id' r) (store (toggleTeam player d))
          = Some (r\<lparr>team := nextTeam (team player)\<rparr>)"
    by (rule toggle_row(1) [OF assms])
next
  assume unassigned: "team r = None"
  define p1 where "p1 = r\<lparr>team := Some red\<rparr>"
  define p2 where "p2 = r\<lparr>team := Some blue\<rparr>"
  define d1 where "d1 = store (toggleTeam r d)"
  define d2 where "d2 = store (toggleTeam p1 d1)"
  define d3 where "d3 = store (toggleTeam p2 d2)"
  have n1: "p1 = r\<lparr>team := nextTeam (team r)\<rparr>"
    by (simp add: p1_def unassigned nextTeam_def)
  have n2: "p2 = p1\<lparr>team := nextTeam (team p1)\<rparr>"
    by (simp add: p1_def p2_def nextTeam_def)
  have n3: "r = p2\<lparr>team := nextTeam (team p2)\<rparr>"
    using unassigned by (simp add: p2_def nextTeam_def)
  have ids: "id' p1 = id' r" "id' p2 = id' r"
    by (simp_all add: p1_def p2_def)
  have s1: "session_row (id' r) d1 = Some p1"
    and i1: "distinct (map id' (current_game d1))" and m1: "p1 \<in> set (current_game d1)"
    using toggle_row [OF assms(1,2) refl] by (simp_all add: d1_def n1)
  have s2: "session_row (id' r) d2 = Some p2"
    and i2: "distinct (map id' (current_game d2))" and m2: "p2 \<in> set (current_game d2)"
    using toggle_row [OF i1 m1 refl] by (simp_all add: d2_def ids flip: n2)
  have s3: "session_row (id' r) d3 = Some r"
    using toggle_row(1) [OF i2 m2 refl] by (simp add: d3_def ids flip: n3)
  show "let p1 = r\<lparr>team := Some red\<rparr>;
            p2 = r\<lparr>team := Some blue\<rparr>;
            d1 = store (toggleTeam r d);
            d2 = store (toggleTeam p1 d1);
            d3 = store (toggleTeam p2 d2)
        in session_row (id' r) d1 = Some p1
           \<and> session_row (id' r) d2 = Some p2
           \<and> session_row (id' r) d3 = Some r"
    using s1 s2 s3 unfolding Let_def p1_def p2_def d1_def d2_def d3_def by simp
qed (simp_all add: nextTeam_def)

theorem toggleTeam_cycle_witness:
  "distinct (map id' (current_game alice_session))
   \<and> alice \<in> set (current_game alice_session)
   \<and> id' (alice\<lparr>team := Some blue\<rparr>) = id' alice
   \<and> team alice = None
   \<and> session_row 1 (store (toggleTeam (alice\<lparr>team := Some blue\<rparr>) alice_session)) = Some alice
   \<and> session_row 1 (store (toggleTeam alice alice_session)) = Some (alice\<lparr>team := Some red\<rparr>)
   \<and> session_row 1 (store (toggleTeam (alice\<lparr>team := Some red\<rparr>) (store (toggleTeam alice alice_session))))
       = Some (alice\<lparr>team := Some blue\<rparr>)"
  using toggleTeam_cycle [of alice_session alice "alice\<lparr>team := Some blue\<rparr>"]
    toggleTeam_cycle [of alice_session alice alice]
  by (simp add: alice_session_def alice_def nextTeam_def Let_def)

text \<open>
  C6. An override on one participant keeps the number of rows, and every row with
  another id is afterwards the same row (id, name, position and team) at the same place.
\<close>

theorem toggleTeam_frame:
  assumes "k < length (current_game d)" and "id' (current_game d ! k) \<noteq> id' player"
  shows "length (current_game (store (toggleTeam player d))) = length (current_game d)
    \<and> current_game (store (toggleTeam player d)) ! k = current_game d ! k"
  using assms by (simp add: toggleTeam_rows)

theorem toggleTeam_frame_witness:
  "(1::nat) < length (current_game alice_session)
   \<and> id' (current_game alice_session ! 1) \<noteq> id' \<lparr>id' = 1, name = ''Alice'', position = defense, team = None\<rparr>
   \<and> length (current_game (store (toggleTeam \<lparr>id' = 1, name = ''Alice'', position = defense, team = None\<rparr> alice_session))) = length (current_game alice_session)
   \<and> current_game (store (toggleTeam \<lparr>id' = 1, name = ''Alice'', position = defense, team = None\<rparr> alice_session)) ! 1
      = current_game alice_session ! 1"
  using toggleTeam_frame [of 1 alice_session "\<lparr>id' = 1, name = ''Alice'', position = defense, team = None\<rparr>"]
  by (simp add: alice_session_def)

section \<open>Properties of the draw\<close>

subsection \<open>The items of \<^verbatim>\<open>teamsUpdate\<close>\<close>

text \<open>
  When the ids of the items are distinct and hold the id looked for, the assignment
  through \<^verbatim>\<open>find\<close> does not throw and overwrites exactly the items of that id.
\<close>

lemma map_fst_paint [simp]: "map fst (paint S t us) = map fst us"
  by (induction us) (auto simp: paint_def)

lemma paint_empty [simp]: "paint {} t us = us"
  by (simp add: paint_def)

lemma paint_absent: "i \<notin> fst ` set us \<Longrightarrow> paint {i} t us = us"
  by (induction us) (auto simp: paint_def)

lemma paint_insert: "paint S t (paint {i} t us) = paint (insert i S) t us"
  by (induction us) (auto simp: paint_def)

lemma find_set_team_paint:
  "distinct (map fst us) \<Longrightarrow> i \<in> fst ` set us \<Longrightarrow> find_set_team i t us = Inr (paint {i} t us)"
proof (induction us)
  case Nil
  then show ?case by simp
next
  case (Cons u us)
  show ?case
  proof (cases "fst u = i")
    case True
    with Cons.prems have "i \<notin> fst ` set us" by auto
    then have "paint {i} t us = us" by (rule paint_absent)
    with True show ?thesis by (simp add: paint_def)
  next
    case False
    with Cons.prems have "i \<in> fst ` set us" and "distinct (map fst us)" by auto
    with Cons.IH have "find_set_team i t us = Inr (paint {i} t us)" by simp
    with False show ?thesis by (simp add: paint_def)
  qed
qed

lemma forEach_set_team_paint:
  "distinct (map fst us) \<Longrightarrow> id' ` set ps \<subseteq> fst ` set us \<Longrightarrow>
   forEach_set_team ps t us = Inr (paint (id' ` set ps) t us)"
proof (induction ps arbitrary: us)
  case Nil
  then show ?case by simp
next
  case (Cons p ps)
  from Cons.prems have "find_set_team (id' p) t us = Inr (paint {id' p} t us)"
    by (intro find_set_team_paint) auto
  moreover have "forEach_set_team ps t (paint {id' p} t us)
      = Inr (paint (id' ` set ps) t (paint {id' p} t us))"
  proof (rule Cons.IH)
    show "distinct (map fst (paint {id' p} t us))"
      using Cons.prems(1) by simp
    have "fst ` set (paint {id' p} t us) = set (map fst (paint {id' p} t us))"
      by (simp only: set_map)
    then show "id' ` set ps \<subseteq> fst ` set (paint {id' p} t us)"
      using Cons.prems(2) by simp
  qed
  ultimately show ?case
    by (simp add: paint_insert)
qed

lemma and_then_Inr [simp]: "and_then (Inr x) f = f x"
  by (simp add: and_then_def)

lemma set_slice_subset: "set (slice a b xs) \<subseteq> set xs"
  unfolding slice_def by (meson set_take_subset set_drop_subset subset_trans)

lemma first_as_slice:
  "(if length xs \<ge> 1 then find_set_team (id' (xs ! 0)) t us else Inr us)
     = forEach_set_team (slice 0 1 xs) t us"
  by (cases xs) (auto simp: slice_def split: sum.splits)

lemma second_as_slice:
  "(if length xs \<ge> 2 then find_set_team (id' (xs ! 1)) t us else Inr us)
     = forEach_set_team (slice 1 2 xs) t us"
proof (cases xs)
  case Nil
  then show ?thesis by (simp add: slice_def)
next
  case (Cons x ys)
  then show ?thesis by (cases ys) (auto simp: slice_def split: sum.splits)
qed

lemma forEach_chain:
  assumes "map fst us = map id' gp" and "distinct (map id' gp)" and "set ps \<subseteq> set gp"
  shows "forEach_set_team ps t us = Inr (paint (ids ps) t us)"
proof -
  have "distinct (map fst us)"
    using assms(1,2) by simp
  moreover have "fst ` set us = id' ` set gp"
    using assms(1) by (metis set_map)
  then have "id' ` set ps \<subseteq> fst ` set us"
    using assms(3) by auto
  ultimately show ?thesis
    unfolding ids_def by (rule forEach_set_team_paint)
qed

lemma pool_subset:
  assumes "\<forall>xs. mset (shuffle xs) = mset xs"
  shows "set (slice a b (pool shuffle gp pos)) \<subseteq> set gp"
proof -
  have "set (pool shuffle gp pos) = set (filter (\<lambda>p. position p = pos) gp)"
    unfolding pool_def using assms by (metis mset_eq_setD)
  then show ?thesis
    using set_slice_subset [of a b "pool shuffle gp pos"] by auto
qed

lemma teamsUpdate_paint:
  assumes perm: "\<forall>xs. mset (shuffle xs) = mset xs" and dist: "distinct (map id' gp)"
  shows "teamsUpdate shuffle gp = Inr
     (paint (ids (slice 6 12 (pool shuffle gp forward))) blue
     (paint (ids (slice 0 6 (pool shuffle gp forward))) red
     (paint (ids (slice 4 8 (pool shuffle gp defense))) blue
     (paint (ids (slice 0 4 (pool shuffle gp defense))) red
     (paint (ids (slice 1 2 (pool shuffle gp goalie))) blue
     (paint (ids (slice 0 1 (pool shuffle gp goalie))) red
        (map (\<lambda>p. (id' p, None)) gp)))))))"
proof -
  define reset :: "(nat \<times> Team option) list" where "reset = map (\<lambda>p. (id' p, None)) gp"
  have keys: "map fst reset = map id' gp"
    by (simp add: reset_def comp_def)
  note sub = pool_subset [OF perm, of _ _ gp]
  define u1 where "u1 = paint (ids (slice 0 1 (pool shuffle gp goalie))) red reset"
  define u2 where "u2 = paint (ids (slice 1 2 (pool shuffle gp goalie))) blue u1"
  define u3 where "u3 = paint (ids (slice 0 4 (pool shuffle gp defense))) red u2"
  define u4 where "u4 = paint (ids (slice 4 8 (pool shuffle gp defense))) blue u3"
  define u5 where "u5 = paint (ids (slice 0 6 (pool shuffle gp forward))) red u4"
  have k1: "map fst u1 = map id' gp" by (simp add: u1_def keys)
  have k2: "map fst u2 = map id' gp" by (simp add: u2_def k1)
  have k3: "map fst u3 = map id' gp" by (simp add: u3_def k2)
  have k4: "map fst u4 = map id' gp" by (simp add: u4_def k3)
  have k5: "map fst u5 = map id' gp" by (simp add: u5_def k4)
  have s1: "forEach_set_team (slice 0 1 (pool shuffle gp goalie)) red reset = Inr u1"
    unfolding u1_def by (rule forEach_chain [OF keys dist sub])
  have s2: "forEach_set_team (slice 1 2 (pool shuffle gp goalie)) blue u1 = Inr u2"
    unfolding u2_def by (rule forEach_chain [OF k1 dist sub])
  have s3: "forEach_set_team (slice 0 4 (pool shuffle gp defense)) red u2 = Inr u3"
    unfolding u3_def by (rule forEach_chain [OF k2 dist sub])
  have s4: "forEach_set_team (slice 4 8 (pool shuffle gp defense)) blue u3 = Inr u4"
    unfolding u4_def by (rule forEach_chain [OF k3 dist sub])
  have s5: "forEach_set_team (slice 0 6 (pool shuffle gp forward)) red u4 = Inr u5"
    unfolding u5_def by (rule forEach_chain [OF k4 dist sub])
  have s6: "forEach_set_team (slice 6 12 (pool shuffle gp forward)) blue u5
      = Inr (paint (ids (slice 6 12 (pool shuffle gp forward))) blue u5)"
    by (rule forEach_chain [OF k5 dist sub])
  have "teamsUpdate shuffle gp = Inr (paint (ids (slice 6 12 (pool shuffle gp forward))) blue u5)"
    unfolding teamsUpdate_def Let_def first_as_slice second_as_slice
    by (simp only: pool_def [symmetric] reset_def [symmetric] s1 s2 s3 s4 s5 s6 and_then_Inr)
  then show ?thesis
    by (simp only: u5_def u4_def u3_def u2_def u1_def reset_def)
qed

subsection \<open>The rows after the draw\<close>

lemma fold_update_run:
  "fold update_run us rows
     = map (\<lambda>r. case map_of (rev us) (id' r) of None \<Rightarrow> r | Some t \<Rightarrow> r\<lparr>team := t\<rparr>) rows"
proof (induction us arbitrary: rows)
  case Nil
  then show ?case by simp
next
  case (Cons u us)
  have "fold update_run (u # us) rows = fold update_run us (update_run u rows)"
    by simp
  also have "\<dots> = map (\<lambda>r. case map_of (rev us) (id' r) of None \<Rightarrow> r | Some t \<Rightarrow> r\<lparr>team := t\<rparr>)
                     (update_run u rows)"
    by (rule Cons.IH)
  also have "\<dots> = map (\<lambda>r. case map_of (rev (u # us)) (id' r) of None \<Rightarrow> r | Some t \<Rightarrow> r\<lparr>team := t\<rparr>) rows"
    by (auto simp: update_run_def map_add_def split: option.splits)
  finally show ?case .
qed

lemma map_of_keyed:
  "r \<in> set xs \<Longrightarrow> map_of (map (\<lambda>p. (id' p, h (id' p))) xs) (id' r) = Some (h (id' r))"
  by (induction xs) auto

lemma api_split_keyed:
  "current_game (store (api_split (map (\<lambda>p. (id' p, h (id' p))) rows) (d\<lparr>current_game := rows\<rparr>)))
     = map (\<lambda>r. r\<lparr>team := h (id' r)\<rparr>) rows"
proof -
  have "map_of (rev (map (\<lambda>p. (id' p, h (id' p))) rows)) (id' r) = Some (h (id' r))"
    if "r \<in> set rows" for r :: GamePlayer
    using map_of_keyed [of r "rev rows" h] that by (simp add: rev_map)
  then show ?thesis
    by (simp add: api_split_def fold_update_run cong: map_cong)
qed

lemma painted_as_map:
  "paint (ids (slice 6 12 (pool shuffle gp forward))) blue
     (paint (ids (slice 0 6 (pool shuffle gp forward))) red
     (paint (ids (slice 4 8 (pool shuffle gp defense))) blue
     (paint (ids (slice 0 4 (pool shuffle gp defense))) red
     (paint (ids (slice 1 2 (pool shuffle gp goalie))) blue
     (paint (ids (slice 0 1 (pool shuffle gp goalie))) red
        (map (\<lambda>p. (id' p, None)) gp))))))
   = map (\<lambda>p. (id' p, assigned shuffle gp (id' p))) gp"
  by (simp add: paint_def assigned_def comp_def)

lemma splitTeams_rows:
  assumes perm: "\<forall>xs. mset (shuffle xs) = mset xs" and dist: "distinct (map id' gp)"
    and two: "2 \<le> length gp" and sync: "current_game d = gp"
  shows "splitTeams shuffle gp d =
     Inr \<lparr>result = None,
          store = d\<lparr>current_game := map (\<lambda>r. r\<lparr>team := assigned shuffle gp (id' r)\<rparr>) gp\<rparr>,
          sent = [TEAMS_UPDATED]\<rparr>"
proof -
  have t: "teamsUpdate shuffle gp = Inr (map (\<lambda>p. (id' p, assigned shuffle gp (id' p))) gp)"
    by (simp only: teamsUpdate_paint [OF perm dist] painted_as_map)
  have d: "d = d\<lparr>current_game := gp\<rparr>"
    using sync by simp
  have "current_game (store (api_split (map (\<lambda>p. (id' p, assigned shuffle gp (id' p))) gp) d))
      = map (\<lambda>r. r\<lparr>team := assigned shuffle gp (id' r)\<rparr>) gp"
    using api_split_keyed [of "assigned shuffle gp" gp d] d by simp
  then show ?thesis
    using two by (simp add: splitTeams_def t Let_def api_split_def)
qed

subsection \<open>Places in the shuffled pools\<close>

lemma nth_in_slice:
  assumes "distinct xs" and "i < length xs"
  shows "(xs ! i \<in> set (slice a b xs)) = (a \<le> i \<and> i < b)"
proof
  assume "xs ! i \<in> set (slice a b xs)"
  then obtain j where j: "j < length (slice a b xs)" and eq: "slice a b xs ! j = xs ! i"
    by (auto simp: in_set_conv_nth)
  from j have jb: "j < b - a" and ja: "a + j < length xs"
    by (auto simp: slice_def)
  with eq have "xs ! (a + j) = xs ! i"
    by (simp add: slice_def)
  with assms ja have "a + j = i"
    by (simp add: nth_eq_iff_index_eq)
  with jb show "a \<le> i \<and> i < b" by auto
next
  assume r: "a \<le> i \<and> i < b"
  with assms(2) have "i - a < length (slice a b xs)"
    by (auto simp: slice_def)
  moreover from r assms(2) have "slice a b xs ! (i - a) = xs ! i"
    by (auto simp: slice_def)
  ultimately show "xs ! i \<in> set (slice a b xs)"
    by (metis nth_mem)
qed

lemma mem_ids:
  assumes "distinct (map id' gp)" and "r \<in> set gp" and "set A \<subseteq> set gp"
  shows "(id' r \<in> ids A) = (r \<in> set A)"
proof -
  have "inj_on id' (set gp)"
    using assms(1) by (simp add: distinct_map)
  with assms(2,3) show ?thesis
    unfolding ids_def by (auto dest: inj_onD)
qed

lemma set_pool:
  assumes "\<forall>xs. mset (shuffle xs) = mset xs"
  shows "set (pool shuffle gp pos) = {p \<in> set gp. position p = pos}"
proof -
  have "set (pool shuffle gp pos) = set (filter (\<lambda>p. position p = pos) gp)"
    unfolding pool_def using assms by (metis mset_eq_setD)
  then show ?thesis by auto
qed

lemma distinct_pool:
  assumes "\<forall>xs. mset (shuffle xs) = mset xs" and "distinct (map id' gp)"
  shows "distinct (pool shuffle gp pos)"
proof -
  have "distinct (filter (\<lambda>p. position p = pos) gp)"
    using assms(2) by (simp add: distinct_map)
  moreover have "mset (pool shuffle gp pos) = mset (filter (\<lambda>p. position p = pos) gp)"
    unfolding pool_def using assms(1) by simp
  ultimately show ?thesis
    by (metis mset_eq_imp_distinct_iff)
qed

lemma length_pool:
  assumes "\<forall>xs. mset (shuffle xs) = mset xs"
  shows "length (pool shuffle gp pos) = length (filter (\<lambda>p. position p = pos) gp)"
  unfolding pool_def using assms by (metis size_mset)

lemma other_pool:
  assumes "\<forall>xs. mset (shuffle xs) = mset xs" and "position r \<noteq> pos"
  shows "r \<notin> set (slice a b (pool shuffle gp pos))"
  using assms(2) set_slice_subset [of a b "pool shuffle gp pos"] set_pool [OF assms(1), of gp pos]
  by auto

lemma assigned_slot:
  assumes perm: "\<forall>xs. mset (shuffle xs) = mset xs" and dist: "distinct (map id' gp)"
    and i: "i < length (pool shuffle gp pos)"
  shows "assigned shuffle gp (id' (pool shuffle gp pos ! i)) = slot_team (quota pos) i"
proof -
  let ?r = "pool shuffle gp pos ! i"
  have "?r \<in> set (pool shuffle gp pos)"
    using i by simp
  then have mem: "?r \<in> set gp" and pos: "position ?r = pos"
    using set_pool [OF perm, of gp pos] by auto
  have ids_iff: "(id' ?r \<in> ids (slice a b (pool shuffle gp q))) = (?r \<in> set (slice a b (pool shuffle gp q)))" for a b q
    by (rule mem_ids [OF dist mem pool_subset [OF perm]])
  have own: "(?r \<in> set (slice a b (pool shuffle gp pos))) = (a \<le> i \<and> i < b)" for a b
    by (rule nth_in_slice [OF distinct_pool [OF perm dist] i])
  have other: "?r \<notin> set (slice a b (pool shuffle gp q))" if "q \<noteq> pos" for a b q
    using other_pool [OF perm, of ?r q a b gp] pos that by simp
  have A: "assigned shuffle gp (id' ?r) =
     (if ?r \<in> set (slice 6 12 (pool shuffle gp forward)) then Some blue
      else if ?r \<in> set (slice 0 6 (pool shuffle gp forward)) then Some red
      else if ?r \<in> set (slice 4 8 (pool shuffle gp defense)) then Some blue
      else if ?r \<in> set (slice 0 4 (pool shuffle gp defense)) then Some red
      else if ?r \<in> set (slice 1 2 (pool shuffle gp goalie)) then Some blue
      else if ?r \<in> set (slice 0 1 (pool shuffle gp goalie)) then Some red
      else None)"
    by (simp only: assigned_def ids_iff)
  show ?thesis
  proof (cases pos)
    case forward
    then show ?thesis
      using A own [of 6 12] own [of 0 6] other [of defense] other [of goalie]
      by (simp add: slot_team_def quota_def cong: if_cong)
  next
    case defense
    then show ?thesis
      using A own [of 4 8] own [of 0 4] other [of forward] other [of goalie]
      by (simp add: slot_team_def quota_def cong: if_cong)
  next
    case goalie
    then show ?thesis
      using A own [of 1 2] own [of 0 1] other [of forward] other [of defense]
      by (simp add: slot_team_def quota_def cong: if_cong)
  qed
qed

lemma count_in_pool:
  assumes perm: "\<forall>xs. mset (shuffle xs) = mset xs"
  shows "length (filter (\<lambda>r. P r \<and> position r = pos) gp) = length (filter P (pool shuffle gp pos))"
proof -
  have "mset (filter P (pool shuffle gp pos)) = filter_mset P (mset (pool shuffle gp pos))"
    by simp
  also have "mset (pool shuffle gp pos) = mset (filter (\<lambda>r. position r = pos) gp)"
    unfolding pool_def using perm by simp
  also have "filter_mset P (mset (filter (\<lambda>r. position r = pos) gp))
      = mset (filter (\<lambda>r. P r \<and> position r = pos) gp)"
    by (simp add: filter_filter_mset conj_commute)
  finally show ?thesis
    by (metis size_mset)
qed

lemma slot_count:
  assumes "\<forall>i<length xs. f (xs ! i) = slot_team q i"
  shows "length (filter (\<lambda>r. f r = Some red) xs) = min (length xs) q"
    and "length (filter (\<lambda>r. f r = Some blue) xs) = min (length xs - q) q"
proof -
  have "{i. i < length xs \<and> f (xs ! i) = Some red} = {..<min (length xs) q}"
    using assms by (auto simp: slot_team_def split: if_splits)
  then show "length (filter (\<lambda>r. f r = Some red) xs) = min (length xs) q"
    by (simp add: length_filter_conv_card)
  have "{i. i < length xs \<and> f (xs ! i) = Some blue} = {q..<min (length xs) (2 * q)}"
    using assms by (auto simp: slot_team_def split: if_splits)
  then show "length (filter (\<lambda>r. f r = Some blue) xs) = min (length xs - q) q"
    by (simp add: length_filter_conv_card)
qed

lemma team_count_split:
  assumes perm: "\<forall>xs. mset (shuffle xs) = mset xs" and dist: "distinct (map id' gp)"
  shows "team_count red pos (map (\<lambda>r. r\<lparr>team := assigned shuffle gp (id' r)\<rparr>) gp)
           = min (pool_size pos gp) (quota pos)"
    and "team_count blue pos (map (\<lambda>r. r\<lparr>team := assigned shuffle gp (id' r)\<rparr>) gp)
           = min (pool_size pos gp - quota pos) (quota pos)"
proof -
  have slots: "\<forall>i<length (pool shuffle gp pos).
      assigned shuffle gp (id' (pool shuffle gp pos ! i)) = slot_team (quota pos) i"
    using assigned_slot [OF perm dist] by simp
  have n: "length (pool shuffle gp pos) = pool_size pos gp"
    by (simp add: pool_size_def length_pool [OF perm])
  have cnt: "team_count t pos (map (\<lambda>r. r\<lparr>team := assigned shuffle gp (id' r)\<rparr>) gp)
      = length (filter (\<lambda>r. assigned shuffle gp (id' r) = Some t) (pool shuffle gp pos))" for t
    using count_in_pool [OF perm, of "\<lambda>r. assigned shuffle gp (id' r) = Some t" pos gp]
    by (simp add: team_count_def filter_map comp_def)
  show "team_count red pos (map (\<lambda>r. r\<lparr>team := assigned shuffle gp (id' r)\<rparr>) gp)
           = min (pool_size pos gp) (quota pos)"
    using slot_count(1) [OF slots] by (simp add: cnt n)
  show "team_count blue pos (map (\<lambda>r. r\<lparr>team := assigned shuffle gp (id' r)\<rparr>) gp)
           = min (pool_size pos gp - quota pos) (quota pos)"
    using slot_count(2) [OF slots] by (simp add: cnt n)
qed

lemma assigned_total:
  "length (filter (\<lambda>r. team r \<noteq> None) rows)
     = team_count red goalie rows + team_count blue goalie rows
     + team_count red defense rows + team_count blue defense rows
     + team_count red forward rows + team_count blue forward rows"
proof (induction rows)
  case Nil
  then show ?case by (simp add: team_count_def)
next
  case (Cons r rows)
  show ?case
  proof (cases "team r")
    case None
    with Cons show ?thesis by (simp add: team_count_def)
  next
    case (Some t)
    with Cons show ?thesis
      by (cases t; cases "position r") (simp_all add: team_count_def)
  qed
qed

subsection \<open>Quotas\<close>

text \<open>
  C3. Let the shuffle return a permutation of its argument, let the participants have
  distinct ids, be at least two and be the rows of the session. Then the draw goes
  through, and afterwards red has \<open>min (pool, quota)\<close> players of each position and blue
  has \<open>min (pool - quota, quota)\<close>, the minimum of what red's slice leaves of the pool
  and the quota, for the quotas 1 (goalie), 4 (defense) and 6 (forward); so no team has
  more than 1 goalie, 4 defenders or 6 forwards, and the number of participants with a
  team is the sum over the positions of \<open>min (pool, 2 * quota)\<close>.
\<close>

theorem splitTeams_quotas:
  assumes "\<forall>xs. mset (shuffle xs) = mset xs" and "distinct (map id' gamePlayers)"
    and "2 \<le> length gamePlayers" and "current_game d = gamePlayers"
  shows "\<exists>out. splitTeams shuffle gamePlayers d = Inr out \<and>
           (let rows = current_game (store out);
                G = pool_size goalie gamePlayers;
                D = pool_size defense gamePlayers;
                F = pool_size forward gamePlayers
            in team_count red goalie rows = min G 1 \<and> team_count blue goalie rows = min (G - 1) 1
             \<and> team_count red defense rows = min D 4 \<and> team_count blue defense rows = min (D - 4) 4
             \<and> team_count red forward rows = min F 6 \<and> team_count blue forward rows = min (F - 6) 6
             \<and> team_count red goalie rows \<le> 1 \<and> team_count blue goalie rows \<le> 1
             \<and> team_count red defense rows \<le> 4 \<and> team_count blue defense rows \<le> 4
             \<and> team_count red forward rows \<le> 6 \<and> team_count blue forward rows \<le> 6
             \<and> length (filter (\<lambda>r. team r \<noteq> None) rows) = min G 2 + min D 8 + min F 12)"
proof -
  define rows where "rows = map (\<lambda>r. r\<lparr>team := assigned shuffle gamePlayers (id' r)\<rparr>) gamePlayers"
  note c = team_count_split [OF assms(1,2), folded rows_def]
  have g: "team_count red goalie rows = min (pool_size goalie gamePlayers) 1"
      "team_count blue goalie rows = min (pool_size goalie gamePlayers - 1) 1"
    using c [of goalie] by (simp_all add: quota_def)
  have d: "team_count red defense rows = min (pool_size defense gamePlayers) 4"
      "team_count blue defense rows = min (pool_size defense gamePlayers - 4) 4"
    using c [of defense] by (simp_all add: quota_def)
  have f: "team_count red forward rows = min (pool_size forward gamePlayers) 6"
      "team_count blue forward rows = min (pool_size forward gamePlayers - 6) 6"
    using c [of forward] by (simp_all add: quota_def)
  have total: "length (filter (\<lambda>r. team r \<noteq> None) rows)
      = min (pool_size goalie gamePlayers) 2 + min (pool_size defense gamePlayers) 8
        + min (pool_size forward gamePlayers) 12"
  proof -
    have m: "min n q + min (n - q) q = min n (2 * q)" for n q :: nat
      by arith
    show ?thesis
      unfolding assigned_total g d f
      using m [of "pool_size goalie gamePlayers" 1] m [of "pool_size defense gamePlayers" 4]
        m [of "pool_size forward gamePlayers" 6]
      by simp
  qed
  have "splitTeams shuffle gamePlayers d =
      Inr \<lparr>result = None, store = d\<lparr>current_game := rows\<rparr>, sent = [TEAMS_UPDATED]\<rparr>"
    unfolding rows_def by (rule splitTeams_rows [OF assms])
  moreover have "current_game (store \<lparr>result = None :: alert option, store = d\<lparr>current_game := rows\<rparr>, sent = [TEAMS_UPDATED]\<rparr>) = rows"
    by simp
  ultimately show ?thesis
    using g d f total by (simp add: Let_def)
qed

theorem splitTeams_quotas_witness:
  "(\<forall>xs :: GamePlayer list. mset (rev xs) = mset xs)
   \<and> distinct (map id' four) \<and> 2 \<le> length four \<and> current_game four_session = four
   \<and> (\<exists>out. splitTeams rev four four_session = Inr out
        \<and> team_count red goalie (current_game (store out)) = 1
        \<and> team_count blue goalie (current_game (store out)) = 1
        \<and> team_count red defense (current_game (store out)) = 1
        \<and> team_count blue defense (current_game (store out)) = 0
        \<and> length (filter (\<lambda>r. team r \<noteq> None) (current_game (store out))) = 3)"
  using splitTeams_quotas [of rev four four_session]
  by (auto simp: four_def four_session_def pool_size_def Let_def)

subsection \<open>Reset, one team, and the players left over\<close>

text \<open>
  C4. Under the same conditions, the draw keeps the rows and their ids, so every
  participant has one row and one team; and the row of the participant at place \<open>i\<close> of
  the shuffled pool of a position is that participant with the team red for \<open>i\<close> below
  the quota, blue for \<open>i\<close> from the quota up to twice the quota, and unassigned from
  twice the quota on. The team that the participant had before the draw plays no part.
  Every participant of a position is at some place of the pool of that position.
\<close>

theorem splitTeams_slots:
  assumes "\<forall>xs. mset (shuffle xs) = mset xs" and "distinct (map id' gamePlayers)"
    and "2 \<le> length gamePlayers" and "current_game d = gamePlayers"
    and "i < length (pool shuffle gamePlayers pos)"
  shows "\<exists>out. splitTeams shuffle gamePlayers d = Inr out
     \<and> map id' (current_game (store out)) = map id' gamePlayers
     \<and> session_row (id' (pool shuffle gamePlayers pos ! i)) (store out)
         = Some ((pool shuffle gamePlayers pos ! i)
                   \<lparr>team := if i < quota pos then Some red
                            else if i < 2 * quota pos then Some blue else None\<rparr>)
     \<and> set (pool shuffle gamePlayers pos) = {p \<in> set gamePlayers. position p = pos}"
proof -
  let ?p = "pool shuffle gamePlayers pos ! i"
  define rows where "rows = map (\<lambda>r. r\<lparr>team := assigned shuffle gamePlayers (id' r)\<rparr>) gamePlayers"
  define out :: "alert option outcome"
    where "out = \<lparr>result = None, store = d\<lparr>current_game := rows\<rparr>, sent = [TEAMS_UPDATED]\<rparr>"
  have run: "splitTeams shuffle gamePlayers d = Inr out"
    unfolding out_def rows_def by (rule splitTeams_rows [OF assms(1-4)])
  have rows: "current_game (store out) = rows"
    by (simp add: out_def)
  have keys: "map id' rows = map id' gamePlayers"
    by (simp add: rows_def comp_def)
  have "?p \<in> set (pool shuffle gamePlayers pos)"
    using assms(5) by simp
  then have mem: "?p \<in> set gamePlayers"
    using set_pool [OF assms(1), of gamePlayers pos] by simp
  then have "?p\<lparr>team := assigned shuffle gamePlayers (id' ?p)\<rparr> \<in> set rows"
    unfolding rows_def by (simp add: image_iff) blast
  moreover have "id' (?p\<lparr>team := assigned shuffle gamePlayers (id' ?p)\<rparr>) = id' ?p"
    by simp
  moreover have "distinct (map id' rows)"
    using keys assms(2) by simp
  ultimately have "find (\<lambda>r. id' r = id' ?p) rows
      = Some (?p\<lparr>team := assigned shuffle gamePlayers (id' ?p)\<rparr>)"
    using find_distinct_ids [of rows "?p\<lparr>team := assigned shuffle gamePlayers (id' ?p)\<rparr>"] by simp
  then have "session_row (id' ?p) (store out) = Some (?p\<lparr>team := slot_team (quota pos) i\<rparr>)"
    by (simp add: session_row_def rows assigned_slot [OF assms(1,2,5)])
  then show ?thesis
    using run keys set_pool [OF assms(1), of gamePlayers pos]
    by (simp add: rows slot_team_def)
qed

theorem splitTeams_slots_witness:
  "(\<forall>xs :: GamePlayer list. mset (rev xs) = mset xs)
   \<and> distinct (map id' four) \<and> 2 \<le> length four \<and> current_game four_session = four
   \<and> 2 < length (pool rev four goalie)
   \<and> (\<exists>out. splitTeams rev four four_session = Inr out
        \<and> session_row 1 (store out)
            = Some \<lparr>id' = 1, name = ''Ada'', position = goalie, team = None\<rparr>)"
  using splitTeams_slots [of rev four four_session 2 goalie]
  by (auto simp: four_def four_session_def pool_def quota_def)

section \<open>The shuffle is not uniform\<close>

text \<open>
  Every probability of a run is an integer over a power of two: each call of the
  comparison function halves.
\<close>

lemma probability_dyadic: "\<exists>(a :: int) (k :: nat). probability run ys = of_int a / 2 ^ k"
proof (induction run)
  case (Return xs)
  have "probability (Return xs) ys = of_int (if xs = ys then 1 else 0) / 2 ^ 0"
    by simp
  then show ?case by blast
next
  case (Call_comparefn negative zero positive)
  from Call_comparefn.IH(1) obtain a1 :: int and k1 :: nat
    where n: "probability negative ys = of_int a1 / 2 ^ k1" by blast
  from Call_comparefn.IH(3) obtain a2 :: int and k2 :: nat
    where p: "probability positive ys = of_int a2 / 2 ^ k2" by blast
  have "probability (Call_comparefn negative zero positive) ys
      = of_int (a1 * 2 ^ k2 + a2 * 2 ^ k1) / 2 ^ (Suc (k1 + k2))"
    by (simp add: n p field_simps power_add)
  then show ?case by blast
qed

lemma three_dvd_fact: "3 \<le> n \<Longrightarrow> (3::int) dvd fact n"
proof -
  assume "3 \<le> n"
  then have "(fact 3 :: int) dvd fact n"
    by (rule fact_dvd)
  moreover have "(fact 3 :: int) = 3 * 2"
    by (simp add: fact_numeral)
  ultimately show ?thesis
    by (metis dvd_mult_left)
qed

text \<open>
  C2 fails for every pool of three players or more. Whatever the sort of the engine does
  with the answers of the random comparison function, no ordering is returned with
  probability \<open>1 / n!\<close> when \<open>n\<close> is at least 3, since \<open>n!\<close> is then a multiple of 3.
\<close>

theorem random_comparator_not_uniform:
  assumes "3 \<le> n"
  shows "probability run ys \<noteq> 1 / of_nat (fact n)"
proof
  assume u: "probability run ys = 1 / of_nat (fact n)"
  obtain a :: int and k :: nat where d: "probability run ys = of_int a / 2 ^ k"
    using probability_dyadic by blast
  have "(of_int a :: rat) * of_nat (fact n) = 2 ^ k"
    using u d by (simp add: field_simps)
  then have "(of_int (a * fact n) :: rat) = of_int (2 ^ k)"
    by simp
  then have eq: "a * fact n = 2 ^ k"
    by (simp only: of_int_eq_iff)
  have "(3::int) dvd a * fact n"
    using three_dvd_fact [OF assms] by simp
  with eq have three: "(3::int) dvd 2 ^ k"
    by simp
  have "coprime (3::int) (2 ^ k)"
    by simp
  then have "is_unit (3::int)"
    using dvd_refl three by (rule coprime_common_divisor)
  then show False
    by simp
qed

theorem random_comparator_not_uniform_witness:
  "(3::nat) \<le> 3
   \<and> probability (Call_comparefn (Return [1, 2, 3 :: nat]) (Return [1, 2, 3]) (Return [2, 1, 3])) [1, 2, 3]
       \<noteq> 1 / of_nat (fact 3)"
  using random_comparator_not_uniform [of 3
      "Call_comparefn (Return [1, 2, 3 :: nat]) (Return [1, 2, 3]) (Return [2, 1, 3])" "[1, 2, 3]"]
  by simp

end
